theory Spec2Isabelle
  imports Complex_Main "HOL-Library.Multiset"
begin

section \<open>Strings and the functions of the JavaScript runtime\<close>

text \<open>
  A JavaScript string is a sequence of UTF-16 code units; a code unit is modelled as a
  natural number. \<open>asc\<close> writes an ASCII literal as such a string.
\<close>

type_synonym ustring = "nat list"

definition asc :: "string \<Rightarrow> ustring" where
  "asc s = map of_char s"

text \<open>
  A JavaScript number as far as the program needs it: a finite value, \<open>NaN\<close> or an
  infinity.
\<close>

datatype jsnum = Num real | NaN | PosInf | NegInf

text \<open>
  \<open>EventKey\<close> is the bound of the type parameter of \<open>dedupe\<close> (server.ts, line 142):
  five optional strings. \<open>EventItem\<close> extends it. The code reads every string field
  through \<open>|| ""\<close> or an optional parameter, so the fields are optional here.
\<close>

record EventKey =
  source :: "ustring option"
  source_id :: "ustring option"
  url :: "ustring option"
  event_name :: "ustring option"
  start_utc :: "ustring option"

record EventItem = EventKey +
  artist_name :: "ustring option"
  venue_name :: "ustring option"
  city :: "ustring option"
  state :: "ustring option"
  country :: "ustring option"
  lat :: "jsnum option"
  lon :: "jsnum option"

text \<open>An item with its score: \<open>{ ...e, _score: score }\<close> (rank.ts, line 87).\<close>

record Scored = EventItem +
  score :: int

text \<open>
  The built-in functions that the program calls and that are not code of the repository
  are parameters of the model: \<open>String.prototype.normalize("NFKD")\<close>,
  \<open>String.prototype.toLowerCase\<close>, \<open>parseFloat\<close>, \<open>Date.parse\<close> (\<open>None\<close> is
  \<open>NaN\<close>), \<open>Date.now\<close>, the floating-point evaluation of the haversine formula of
  \<open>distMiles\<close> (rank.ts, lines 23-33), \<open>String.prototype.localeCompare\<close>, and the
  sorting procedure of the engine behind \<open>Array.prototype.sort\<close>, which maps a
  comparator and the elements of the array to the order it leaves them in.
\<close>

record platform =
  nfkd :: "ustring \<Rightarrow> ustring"
  toLowerCase :: "ustring \<Rightarrow> ustring"
  parseFloat :: "ustring \<Rightarrow> jsnum"
  dateParse :: "ustring \<Rightarrow> int option"
  dateNow :: int
  haversine :: "jsnum \<Rightarrow> jsnum \<Rightarrow> jsnum \<Rightarrow> jsnum \<Rightarrow> jsnum"
  localeCompare :: "ustring \<Rightarrow> ustring \<Rightarrow> int"
  sortEngine :: "(Scored \<Rightarrow> Scored \<Rightarrow> int) \<Rightarrow> Scored list \<Rightarrow> Scored list"

text \<open>\<open>s || d\<close> on an optional string: \<open>undefined\<close> and the empty string are falsy.\<close>

fun orElse :: "ustring option \<Rightarrow> ustring \<Rightarrow> ustring" where
  "orElse None d = d"
| "orElse (Some s) d = (if s = [] then d else s)"

fun truthy :: "ustring option \<Rightarrow> bool" where
  "truthy None = False"
| "truthy (Some s) = (s \<noteq> [])"

section \<open>NameNormalizer: \<open>norm\<close> (ticketmaster.ts), here \<open>normStr\<close>\<close>

text \<open>
  The source function is \<open>norm\<close>; the name is taken by the norm of a vector space.
  First the character classes of its three regular expressions.
\<close>

definition isCombining :: "nat \<Rightarrow> bool" where
  "isCombining c = (0x300 \<le> c \<and> c \<le> 0x36F)"

definition unifyApostrophe :: "nat \<Rightarrow> nat" where
  "unifyApostrophe c = (if c = 0x2019 then 0x27 else c)"

definition isLowerAlnum :: "nat \<Rightarrow> bool" where
  "isLowerAlnum c = ((0x61 \<le> c \<and> c \<le> 0x7A) \<or> (0x30 \<le> c \<and> c \<le> 0x39))"

text \<open>\<open>.replace(/[^a-z0-9]+/g, " ")\<close>: every maximal run becomes one space.\<close>

function replaceRuns :: "ustring \<Rightarrow> ustring" where
  "replaceRuns [] = []"
| "replaceRuns (c # cs) =
     (if isLowerAlnum c then c # replaceRuns cs
      else 0x20 # replaceRuns (dropWhile (\<lambda>d. \<not> isLowerAlnum d) cs))"
  by pat_completeness auto
termination
  by (relation "measure length") (auto simp: length_dropWhile_le less_Suc_eq_le)

text \<open>The white space and line terminators that \<open>String.prototype.trim\<close> strips.\<close>

definition isWhiteSpace :: "nat \<Rightarrow> bool" where
  "isWhiteSpace c =
     (c \<in> {0x9, 0xA, 0xB, 0xC, 0xD, 0x20, 0xA0, 0x1680, 0x2028, 0x2029, 0x202F, 0x205F,
            0x3000, 0xFEFF} \<or> (0x2000 \<le> c \<and> c \<le> 0x200A))"

definition trim :: "ustring \<Rightarrow> ustring" where
  "trim s = rev (dropWhile isWhiteSpace (rev (dropWhile isWhiteSpace s)))"

definition normStr :: "platform \<Rightarrow> ustring option \<Rightarrow> ustring" where
  "normStr P s =
     trim (replaceRuns (toLowerCase P (map unifyApostrophe
       (filter (\<lambda>c. \<not> isCombining c) (nfkd P (orElse s []))))))"



section \<open>The data of the event search (ticketmaster.ts)\<close>

text \<open>
  \<open>TMAttraction\<close>, \<open>TMVenue\<close> and \<open>TMEvent\<close>. The nested optional objects of the source
  (\<open>city?.name\<close>, \<open>location?.latitude\<close>, \<open>dates?.start?.dateTime\<close>,
  \<open>_embedded?.attractions\<close>) are read through optional chaining only, so each chain is
  one optional field here.
\<close>

record TMAttraction =
  a_id :: ustring
  a_name :: ustring

record TMVenue =
  v_name :: "ustring option"
  v_city :: "ustring option"
  v_state :: "ustring option"
  v_country :: "ustring option"
  v_latitude :: "ustring option"
  v_longitude :: "ustring option"

record TMEvent =
  ev_id :: ustring
  ev_name :: ustring
  ev_url :: ustring
  ev_dateTime :: "ustring option"
  ev_attractions :: "TMAttraction list option"
  ev_venues :: "TMVenue list option"

section \<open>PerformerMatcher, TitleGuard and EventMapper: \<open>mapEvents\<close> (ticketmaster.ts)\<close>

text \<open>
  The regular expression \<open>bannedTitle\<close> is \<open>\b(alt1|alt2|...)\b\<close> with no flag. Its
  \<open>test\<close> succeeds when some alternative occurs at some position with a word boundary
  on both sides; a word character is one of \<open>[A-Za-z0-9_]\<close>.
\<close>

definition bannedAlts :: "ustring list" where
  "bannedAlts = map asc
     [''tribute'', ''a tribute to'', ''music of'', ''the music of'',
      ''performs the music of'', ''performing the music of'', ''plays the music of'',
      ''vs'', ''night'', ''party'', ''orchestra'', ''symphony'', ''philharmonic'',
      ''candlelight'', ''string quartet'', ''ensemble'', ''experience'',
      ''film concert'', ''in concert with'']"

definition isWordChar :: "nat \<Rightarrow> bool" where
  "isWordChar c =
     ((0x30 \<le> c \<and> c \<le> 0x39) \<or> (0x41 \<le> c \<and> c \<le> 0x5A) \<or> c = 0x5F \<or>
      (0x61 \<le> c \<and> c \<le> 0x7A))"

definition wordAt :: "ustring \<Rightarrow> nat \<Rightarrow> bool" where
  "wordAt s i = (i < length s \<and> isWordChar (s ! i))"

definition wordBoundary :: "ustring \<Rightarrow> nat \<Rightarrow> bool" where
  "wordBoundary s i = ((0 < i \<and> wordAt s (i - 1)) \<noteq> wordAt s i)"

definition matchesAt :: "ustring \<Rightarrow> nat \<Rightarrow> ustring \<Rightarrow> bool" where
  "matchesAt s i alt =
     (wordBoundary s i \<and> take (length alt) (drop i s) = alt \<and>
      wordBoundary s (i + length alt))"

definition bannedTitleTest :: "ustring \<Rightarrow> bool" where
  "bannedTitleTest s =
     list_ex (\<lambda>i. list_ex (matchesAt s i) bannedAlts) [0..<Suc (length s)]"

text \<open>The expression \<open>ok\<close> of the inner loop (lines 394-400).\<close>

definition attractionOk ::
  "platform \<Rightarrow> ustring option \<Rightarrow> ustring option \<Rightarrow> ustring \<Rightarrow> TMAttraction \<Rightarrow> bool" where
  "attractionOk P ensureId expectedName nExpected a =
     (let byId = (truthy ensureId \<and> Some (a_id a) = ensureId);
          byName = (if nExpected \<noteq> [] then normStr P (Some (a_name a)) = nExpected
                    else False)
      in if truthy ensureId \<and> truthy expectedName then byId \<and> byName
         else if truthy ensureId then byId
         else if nExpected \<noteq> [] then byName
         else False)"

definition emptyVenue :: TMVenue where
  "emptyVenue = \<lparr>v_name = None, v_city = None, v_state = None, v_country = None,
     v_latitude = None, v_longitude = None\<rparr>"

definition parseCoord :: "platform \<Rightarrow> ustring option \<Rightarrow> jsnum option" where
  "parseCoord P c =
     (case c of None \<Rightarrow> None | Some s \<Rightarrow> if s = [] then None else Some (parseFloat P s))"

definition attractionsOf :: "TMEvent \<Rightarrow> TMAttraction list" where
  "attractionsOf ev = (case ev_attractions ev of None \<Rightarrow> [] | Some as \<Rightarrow> as)"

text \<open>
  The body of the loop over the events (lines 389-431): \<open>None\<close> is a \<open>continue\<close>,
  \<open>Some\<close> is the item pushed.
\<close>

definition mapEvent ::
  "platform \<Rightarrow> ustring \<Rightarrow> ustring option \<Rightarrow> ustring option \<Rightarrow> ustring \<Rightarrow> TMEvent
     \<Rightarrow> EventItem option" where
  "mapEvent P artistName ensureId expectedName nExpected ev =
     (let atts = attractionsOf ev in
      case find (attractionOk P ensureId expectedName nExpected) atts of
        None \<Rightarrow> None
      | Some matched \<Rightarrow>
          if \<not> truthy ensureId \<and> nExpected \<noteq> [] \<and>
             bannedTitleTest (normStr P (Some (ev_name ev)))
          then None
          else
            let v = (case ev_venues ev of Some (v0 # _) \<Rightarrow> v0 | _ \<Rightarrow> emptyVenue) in
            Some \<lparr>source = Some (asc ''tm''),
              source_id = Some (ev_id ev),
              url = Some (ev_url ev),
              event_name = Some (ev_name ev),
              start_utc = ev_dateTime ev,
              artist_name = Some (orElse (Some (a_name matched)) artistName),
              venue_name = v_name v,
              city = v_city v,
              state = v_state v,
              country = v_country v,
              lat = parseCoord P (v_latitude v),
              lon = parseCoord P (v_longitude v)\<rparr>)"

fun mapEventsLoop ::
  "platform \<Rightarrow> ustring \<Rightarrow> ustring option \<Rightarrow> ustring option \<Rightarrow> ustring \<Rightarrow> TMEvent list
     \<Rightarrow> EventItem list \<Rightarrow> EventItem list" where
  "mapEventsLoop P artistName ensureId expectedName nExpected [] out = out"
| "mapEventsLoop P artistName ensureId expectedName nExpected (ev # evs) out =
     (case mapEvent P artistName ensureId expectedName nExpected ev of
        None \<Rightarrow> mapEventsLoop P artistName ensureId expectedName nExpected evs out
      | Some item \<Rightarrow>
          mapEventsLoop P artistName ensureId expectedName nExpected evs (out @ [item]))"

definition mapEvents ::
  "platform \<Rightarrow> ustring \<Rightarrow> TMEvent list \<Rightarrow> ustring option \<Rightarrow> ustring option
     \<Rightarrow> EventItem list" where
  "mapEvents P artistName events ensureId expectedName =
     mapEventsLoop P artistName ensureId expectedName
       (normStr P (Some (orElse expectedName artistName))) events []"

section \<open>EventDeduper: \<open>dedupe\<close> (server.ts)\<close>

text \<open>The template string of line 146.\<close>

definition dedupeKey :: "platform \<Rightarrow> 'a EventKey_scheme \<Rightarrow> ustring" where
  "dedupeKey P e =
     orElse (source e) (asc ''tm'') @ asc ''|'' @
     orElse (source_id e) [] @ asc ''|'' @
     orElse (url e) [] @ asc ''|'' @
     toLowerCase P (orElse (event_name e) []) @ asc ''|'' @
     orElse (start_utc e) []"

fun dedupeLoop ::
  "platform \<Rightarrow> ustring set \<Rightarrow> 'a EventKey_scheme list \<Rightarrow> 'a EventKey_scheme list
     \<Rightarrow> 'a EventKey_scheme list" where
  "dedupeLoop P seen out [] = out"
| "dedupeLoop P seen out (e # es) =
     (let key = dedupeKey P e in
      if key \<in> seen then dedupeLoop P seen out es
      else dedupeLoop P (insert key seen) (out @ [e]) es)"

definition dedupe :: "platform \<Rightarrow> 'a EventKey_scheme list \<Rightarrow> 'a EventKey_scheme list" where
  "dedupe P items = dedupeLoop P {} [] items"

text \<open>
  The key as the specification words it: the five fields, each missing field the empty
  string.
\<close>

definition specKey ::
  "platform \<Rightarrow> 'a EventKey_scheme \<Rightarrow> ustring \<times> ustring \<times> ustring \<times> ustring \<times> ustring" where
  "specKey P e =
     (orElse (source e) [], orElse (source_id e) [], orElse (url e) [],
      toLowerCase P (orElse (event_name e) []), orElse (start_utc e) [])"

text \<open>
  Keeping the first occurrence of every key, by position: the item at position \<open>i\<close>
  stays when no earlier position has its key.
\<close>

definition keepFirst :: "('a \<Rightarrow> 'k) \<Rightarrow> 'a list \<Rightarrow> 'a list" where
  "keepFirst key xs =
     map (\<lambda>i. xs ! i)
       (filter (\<lambda>i. \<forall>j<i. key (xs ! j) \<noteq> key (xs ! i)) [0..<length xs])"

section \<open>ArtistPoolBuilder: \<open>uniquePreserveOrder\<close> and the pool of \<open>/api/events\<close>\<close>

fun uniqueLoop ::
  "platform \<Rightarrow> ustring set \<Rightarrow> ustring list \<Rightarrow> ustring list \<Rightarrow> ustring list" where
  "uniqueLoop P seen out [] = out"
| "uniqueLoop P seen out (n # ns) =
     (let k = toLowerCase P n in
      if k \<notin> seen then uniqueLoop P (insert k seen) (out @ [n]) ns
      else uniqueLoop P seen out ns)"

definition uniquePreserveOrder :: "platform \<Rightarrow> ustring list \<Rightarrow> ustring list" where
  "uniquePreserveOrder P names = uniqueLoop P {} [] names"

text \<open>
  \<open>xs.slice(0, e)\<close> for an integer \<open>e\<close>: a negative end counts from the end of the
  array.
\<close>

definition sliceTo :: "'a list \<Rightarrow> int \<Rightarrow> 'a list" where
  "sliceTo xs e = (if e < 0 then take (nat (int (length xs) + e)) xs else take (nat e) xs)"

text \<open>
  Lines 195-214 of the handler of \<open>/api/events\<close>: the three name lists with the ignored
  names removed, the pool \<open>names\<close> and the four membership sets. The inputs are the name
  lists \<open>savedTracks.map(a => a.name)\<close>, \<open>top.map(a => a.name)\<close> and
  \<open>followed.map(a => a.name)\<close>, and the variable \<open>cap\<close>.
\<close>

record ArtistPool =
  names :: "ustring list"
  likedSet :: "ustring set"
  topSet :: "ustring set"
  followedSet :: "ustring set"
  coreSet :: "ustring set"

definition notIgnored :: "platform \<Rightarrow> ustring set \<Rightarrow> ustring \<Rightarrow> bool" where
  "notIgnored P ignoreSet n = (toLowerCase P n \<notin> ignoreSet)"

definition artistPool ::
  "platform \<Rightarrow> ustring set \<Rightarrow> ustring list \<Rightarrow> ustring list \<Rightarrow> ustring list \<Rightarrow> int
     \<Rightarrow> ArtistPool" where
  "artistPool P ignoreSet savedTracks tops followed cap =
     (let likedNames = filter (notIgnored P ignoreSet) savedTracks;
          topNames = filter (notIgnored P ignoreSet) tops;
          followedNames = filter (notIgnored P ignoreSet) followed;
          ns = sliceTo (uniquePreserveOrder P (likedNames @ topNames @ followedNames)) cap
      in \<lparr>names = ns,
          likedSet = set (map (toLowerCase P) likedNames),
          topSet = set (map (toLowerCase P) topNames),
          followedSet = set (map (toLowerCase P) followedNames),
          coreSet = set (map (toLowerCase P) ns)\<rparr>)"

section \<open>Ranker: \<open>rank\<close> (rank.ts)\<close>

datatype profile = ArtistHeavy | Balanced

record RankCtx =
  userLat :: "jsnum option"
  userLon :: "jsnum option"
  likedArtistNames :: "ustring set"
  topArtistNames :: "ustring set"
  followedArtistNames :: "ustring set"
  preferredArtistNames :: "ustring set option"
  profile :: "profile option"

definition toLc :: "platform \<Rightarrow> ustring option \<Rightarrow> ustring" where
  "toLc P s = toLowerCase P (orElse s [])"

text \<open>
  \<open>distMiles\<close>: infinity when a coordinate is \<open>null\<close>, \<open>undefined\<close> or \<open>NaN\<close>, the
  floating-point haversine value otherwise.
\<close>

definition distMiles ::
  "platform \<Rightarrow> jsnum option \<Rightarrow> jsnum option \<Rightarrow> jsnum option \<Rightarrow> jsnum option \<Rightarrow> jsnum" where
  "distMiles P aLat aLon bLat bLon =
     (case (aLat, aLon, bLat, bLon) of
        (Some a1, Some a2, Some b1, Some b2) \<Rightarrow>
          if a1 = NaN \<or> a2 = NaN \<or> b1 = NaN \<or> b2 = NaN then PosInf
          else haversine P a1 a2 b1 b2
      | _ \<Rightarrow> PosInf)"

text \<open>
  \<open>daysUntil\<close>. \<open>Math.round\<close> rounds to the nearest integer, a half upwards; the
  quotient is taken exactly here (the time stamps are integers of milliseconds).
\<close>

definition mathRoundDiv :: "int \<Rightarrow> int \<Rightarrow> int" where
  "mathRoundDiv a b = (2 * a + b) div (2 * b)"

definition daysUntil :: "platform \<Rightarrow> ustring option \<Rightarrow> int" where
  "daysUntil P isoStr =
     (case isoStr of
        None \<Rightarrow> 9999
      | Some s \<Rightarrow>
          if s = [] then 9999
          else (case dateParse P s of
                  None \<Rightarrow> 9999
                | Some t \<Rightarrow> max 0 (mathRoundDiv (t - dateNow P) (1000 * 60 * 60 * 24))))"

definition ART_LIKED :: int where "ART_LIKED = 140"
definition ART_TOP :: int where "ART_TOP = 95"
definition ART_FOLLOW :: int where "ART_FOLLOW = 75"
definition ART_PREF :: int where "ART_PREF = 40"
definition ART_OTHER :: int where "ART_OTHER = 0"

definition locScore :: "platform \<Rightarrow> RankCtx \<Rightarrow> 'a EventItem_scheme \<Rightarrow> int" where
  "locScore P ctx e =
     (case distMiles P (userLat ctx) (userLon ctx) (lat e) (lon e) of
        Num d \<Rightarrow>
          if d \<le> 15 then 6
          else if d \<le> 50 then 5
          else if d \<le> 120 then 4
          else if d \<le> 200 then 3
          else if d \<le> 400 then 1
          else 0
      | _ \<Rightarrow> 0)"

definition dateScore :: "platform \<Rightarrow> 'a EventItem_scheme \<Rightarrow> int" where
  "dateScore P e =
     (let d = daysUntil P (start_utc e) in
      if d \<le> 14 then 2
      else if d \<le> 45 then 1
      else if d \<le> 180 then 1
      else 0)"

definition preferred :: "RankCtx \<Rightarrow> ustring set" where
  "preferred ctx = (case preferredArtistNames ctx of None \<Rightarrow> {} | Some p \<Rightarrow> p)"

text \<open>The lookup key of \<open>artistScore\<close> (line 77): \<open>toLc(e.artist_name) || toLc(e.event_name)\<close>.\<close>

definition nameLc :: "platform \<Rightarrow> 'a EventItem_scheme \<Rightarrow> ustring" where
  "nameLc P e = orElse (Some (toLc P (artist_name e))) (toLc P (event_name e))"

definition artistScore :: "platform \<Rightarrow> RankCtx \<Rightarrow> 'a EventItem_scheme \<Rightarrow> int" where
  "artistScore P ctx e =
     (if nameLc P e \<in> likedArtistNames ctx then ART_LIKED
      else if nameLc P e \<in> topArtistNames ctx then ART_TOP
      else if nameLc P e \<in> followedArtistNames ctx then ART_FOLLOW
      else if nameLc P e \<in> preferred ctx then ART_PREF
      else ART_OTHER)"

definition scoreEvent :: "platform \<Rightarrow> RankCtx \<Rightarrow> EventItem \<Rightarrow> Scored" where
  "scoreEvent P ctx e =
     EventItem.extend e
       (Scored.fields (artistScore P ctx e + locScore P ctx e + dateScore P e))"

text \<open>
  The comparator of lines 90-104. \<open>Array.prototype.sort\<close> reads the sign of the number
  the comparator returns and takes \<open>NaN\<close> for zero, so the difference of two distances
  is modelled by its sign: \<open>da !== db\<close> is \<open>jsNeq\<close>, \<open>da - db\<close> is \<open>subSign\<close>.
\<close>

definition jsNeq :: "jsnum \<Rightarrow> jsnum \<Rightarrow> bool" where
  "jsNeq a b = (a = NaN \<or> b = NaN \<or> a \<noteq> b)"

fun subSign :: "jsnum \<Rightarrow> jsnum \<Rightarrow> int" where
  "subSign NaN _ = 0"
| "subSign _ NaN = 0"
| "subSign (Num a) (Num b) = (if a < b then -1 else if b < a then 1 else 0)"
| "subSign PosInf PosInf = 0"
| "subSign NegInf NegInf = 0"
| "subSign PosInf _ = 1"
| "subSign _ PosInf = -1"
| "subSign NegInf _ = -1"
| "subSign _ NegInf = 1"

definition cmpCloser :: "platform \<Rightarrow> RankCtx \<Rightarrow> Scored \<Rightarrow> Scored \<Rightarrow> int" where
  "cmpCloser P ctx a b =
     (let da = distMiles P (userLat ctx) (userLon ctx) (lat a) (lon a);
          db = distMiles P (userLat ctx) (userLon ctx) (lat b) (lon b)
      in if jsNeq da db then subSign da db
         else localeCompare P (orElse (event_name a) []) (orElse (event_name b) []))"

definition rankCmp :: "platform \<Rightarrow> RankCtx \<Rightarrow> Scored \<Rightarrow> Scored \<Rightarrow> int" where
  "rankCmp P ctx a b =
     (if score b \<noteq> score a then score b - score a
      else
        (case (dateParse P (orElse (start_utc a) []), dateParse P (orElse (start_utc b) [])) of
           (Some ad, Some bd) \<Rightarrow> if ad \<noteq> bd then ad - bd else cmpCloser P ctx a b
         | _ \<Rightarrow> cmpCloser P ctx a b))"

text \<open>
  \<open>scored.sort(cmp)\<close> sorts the array in place: the array keeps its length, and
  the engine decides what stands at each position. For a consistent comparator the
  language fixes the result (a stable sort); for any other comparator the order is left
  to the engine. So the order is that of the parameter \<open>sortEngine\<close>, written back
  position by position.
\<close>

definition arraySort ::
  "platform \<Rightarrow> (Scored \<Rightarrow> Scored \<Rightarrow> int) \<Rightarrow> Scored list \<Rightarrow> Scored list" where
  "arraySort P c xs =
     (let ys = sortEngine P c xs in
      map (\<lambda>k. if k < length ys then ys ! k else xs ! k) [0..<length xs])"

definition rank :: "platform \<Rightarrow> EventItem list \<Rightarrow> RankCtx \<Rightarrow> Scored list" where
  "rank P events ctx = arraySort P (rankCmp P ctx) (map (scoreEvent P ctx) events)"

text \<open>A list is in the order of the comparator when no later item must precede an earlier one.\<close>

fun inOrder :: "('a \<Rightarrow> 'a \<Rightarrow> int) \<Rightarrow> 'a list \<Rightarrow> bool" where
  "inOrder c [] = True"
| "inOrder c (x # xs) = (list_all (\<lambda>y. c x y \<le> 0) xs \<and> inOrder c xs)"

section \<open>The response of \<open>/api/events\<close> (server.ts, lines 280-292)\<close>

record EventsResponse =
  resp_count :: nat
  resp_events :: "Scored list"

definition eventsResponse :: "platform \<Rightarrow> RankCtx \<Rightarrow> EventItem list \<Rightarrow> EventsResponse" where
  "eventsResponse P ctx all =
     (let unique = dedupe P all;
          ranked = rank P unique ctx
      in \<lparr>resp_count = length ranked, resp_events = sliceTo ranked 220\<rparr>)"

section \<open>ConcurrencyLimitedMapper: \<open>runLimited\<close> (server.ts)\<close>

text \<open>
  A worker call either raises (\<open>Inl\<close>) or resolves to an array, to one value or to
  \<open>undefined\<close>. Every call is taken to settle. JavaScript runs one continuation at a
  time, so a run of \<open>runLimited\<close> is a sequence of events, each of them the continuation
  of one of the promises \<open>starters\<close>: either its awaited \<open>worker(item)\<close> settles (the
  result is pushed or the error is logged, and \<open>sleep\<close> begins), or its \<open>sleep\<close> ends
  (and \<open>next()\<close> takes the next index). The order of these events depends on the timing of
  the workers; it is the parameter \<open>sched\<close>, which chooses, at every step, one of the
  promises that have not returned. \<open>gapMs\<close> only delays the events and is left out.
\<close>
datatype error = Thrown

datatype 'o ret = RArray "'o list" | RValue 'o | RUndefined

datatype phase = Awaiting nat | Sleeping | Returned

record 'o pool =
  idx :: nat
  results :: "'o list"
  tasks :: "phase list"

fun pushResult :: "'o list \<Rightarrow> error + 'o ret \<Rightarrow> 'o list" where
  "pushResult rs (Inl e) = rs"
| "pushResult rs (Inr (RArray r)) = rs @ r"
| "pushResult rs (Inr (RValue v)) = rs @ [v]"
| "pushResult rs (Inr RUndefined) = rs"

text \<open>\<open>const i = idx++; if (i >= inputs.length) return;\<close> and the call of the worker.\<close>

definition claim :: "nat \<Rightarrow> nat \<Rightarrow> phase" where
  "claim n i = (if n \<le> i then Returned else Awaiting i)"

text \<open>One call \<open>next()\<close> of \<open>Array.from({ length: ... }, () => next())\<close>.\<close>

definition spawn :: "nat \<Rightarrow> 'o pool \<Rightarrow> 'o pool" where
  "spawn n st = st\<lparr>idx := idx st + 1, tasks := tasks st @ [claim n (idx st)]\<rparr>"

definition fire :: "('i \<Rightarrow> error + 'o ret) \<Rightarrow> 'i list \<Rightarrow> nat \<Rightarrow> 'o pool \<Rightarrow> 'o pool" where
  "fire worker inputs w st =
     (case tasks st ! w of
        Awaiting i \<Rightarrow>
          st\<lparr>results := pushResult (results st) (worker (inputs ! i)),
             tasks := (tasks st)[w := Sleeping]\<rparr>
      | Sleeping \<Rightarrow>
          st\<lparr>idx := idx st + 1, tasks := (tasks st)[w := claim (length inputs) (idx st)]\<rparr>
      | Returned \<Rightarrow> st)"

definition pending :: "'o pool \<Rightarrow> nat list" where
  "pending st = filter (\<lambda>w. tasks st ! w \<noteq> Returned) [0..<length (tasks st)]"

text \<open>The measure that every event decreases.\<close>

fun weight :: "phase \<Rightarrow> nat" where
  "weight (Awaiting i) = 2"
| "weight Sleeping = 1"
| "weight Returned = 0"

definition fuel :: "nat \<Rightarrow> 'o pool \<Rightarrow> nat" where
  "fuel n st = 2 * (n - idx st) + sum_list (map weight (tasks st))"

lemma sum_weight_update:
  "w < length ts \<Longrightarrow> sum_list (map weight (ts[w := p])) + weight (ts ! w) = sum_list (map weight ts) + weight p"
proof (induction ts arbitrary: w)
  case Nil then show ?case by simp
next
  case (Cons t ts)
  then show ?case by (cases w) auto
qed

lemma fire_fuel:
  assumes "w < length (tasks st)" "tasks st ! w \<noteq> Returned"
  shows "fuel (length inputs) (fire worker inputs w st) < fuel (length inputs) st"
proof (cases "tasks st ! w")
  case (Awaiting i)
  from sum_weight_update[OF assms(1), of Sleeping] Awaiting
  show ?thesis by (simp add: fire_def fuel_def)
next
  case Sleeping
  from sum_weight_update[OF assms(1), of "claim (length inputs) (idx st)"] Sleeping
  show ?thesis by (auto simp: fire_def fuel_def claim_def split: if_splits)
next
  case Returned with assms show ?thesis by simp
qed

lemma pending_mem: "w \<in> set (pending st) \<Longrightarrow> w < length (tasks st) \<and> tasks st ! w \<noteq> Returned"
  by (auto simp: pending_def)

function runPool :: "('i \<Rightarrow> error + 'o ret) \<Rightarrow> 'i list \<Rightarrow> nat list \<Rightarrow> 'o pool \<Rightarrow> 'o list" where
  "runPool worker inputs sched st =
     (if pending st = [] then results st
      else
        let choice = (case sched of [] \<Rightarrow> 0 | c # _ \<Rightarrow> c);
            w = pending st ! (choice mod length (pending st))
        in runPool worker inputs (tl sched) (fire worker inputs w st))"
  by pat_completeness auto
termination
proof (relation "measure (\<lambda>(worker, inputs, sched, st). fuel (length inputs) st)")
  show "wf (measure (\<lambda>(worker, inputs, sched, st). fuel (length inputs) st))" by simp
next
  fix worker :: "'i \<Rightarrow> error + 'o ret" and inputs :: "'i list" and sched :: "nat list"
    and st :: "'o pool" and x xa
  assume ne: "pending st \<noteq> []"
    and x: "x = (case sched of [] \<Rightarrow> 0 | c # _ \<Rightarrow> c)"
    and xa: "xa = pending st ! (x mod length (pending st))"
  have "xa \<in> set (pending st)" unfolding xa using ne by simp
  then have "xa < length (tasks st) \<and> tasks st ! xa \<noteq> Returned" by (rule pending_mem)
  then have "fuel (length inputs) (fire worker inputs xa st) < fuel (length inputs) st"
    by (simp add: fire_fuel)
  then show "((worker, inputs, tl sched, fire worker inputs xa st), worker, inputs, sched, st)
      \<in> measure (\<lambda>(worker, inputs, sched, st). fuel (length inputs) st)" by simp
qed

definition runLimited :: "'i list \<Rightarrow> ('i \<Rightarrow> error + 'o ret) \<Rightarrow> int \<Rightarrow> nat list \<Rightarrow> 'o list" where
  "runLimited inputs worker limit sched =
     runPool worker inputs sched
       ((spawn (length inputs) ^^ nat (min limit (int (length inputs))))
          \<lparr>idx = 0, results = [], tasks = []\<rparr>)"

text \<open>What one input contributes: the outputs of its worker, nothing when it raises.\<close>

definition outputsOf :: "('i \<Rightarrow> error + 'o ret) \<Rightarrow> 'i \<Rightarrow> 'o list" where
  "outputsOf worker x = pushResult [] (worker x)"

text \<open>
  The invariant of a run: the outputs already pushed, the outputs of the calls in
  flight and the outputs of the inputs not yet taken make up the outputs of all inputs;
  and as long as inputs are left, some promise has not returned.
\<close>

definition owed :: "('i \<Rightarrow> error + 'o ret) \<Rightarrow> 'i list \<Rightarrow> phase \<Rightarrow> 'o multiset" where
  "owed worker inputs ph =
     (case ph of Awaiting i \<Rightarrow> mset (outputsOf worker (inputs ! i)) | _ \<Rightarrow> {#})"

definition conserved :: "('i \<Rightarrow> error + 'o ret) \<Rightarrow> 'i list \<Rightarrow> 'o pool \<Rightarrow> bool" where
  "conserved worker inputs st =
     (mset (results st) + sum_list (map (owed worker inputs) (tasks st)) +
        mset (concat (map (outputsOf worker) (drop (idx st) inputs))) =
      mset (concat (map (outputsOf worker) inputs)))"

definition live :: "'i list \<Rightarrow> 'o pool \<Rightarrow> bool" where
  "live inputs st = (length inputs \<le> idx st \<or> pending st \<noteq> [])"

section \<open>A runtime for the closed examples\<close>

text \<open>
  An instance of \<open>platform\<close> for evaluating the definitions on concrete inputs. It
  agrees with the JavaScript runtime on the inputs of the examples below: NFKD decomposes
  the letters \<open>e\<close> and \<open>E\<close> with acute accent and leaves ASCII alone, \<open>toLowerCase\<close>
  maps the ASCII capitals, \<open>parseFloat\<close> reads a string of decimal digits,
  \<open>Date.parse\<close> knows two dates of January 2030, \<open>Date.now\<close> is the first instant of
  2026, the haversine distance of a point to itself is zero, \<open>localeCompare\<close>
  orders strings of lower-case ASCII letters by their code units, and the sorting
  procedure is that of V8, the engine of Node, for an array of fewer than 64 elements.
\<close>

definition nfkd0 :: "ustring \<Rightarrow> ustring" where
  "nfkd0 s = concat (map (\<lambda>c. if c = 0xE9 then [0x65, 0x301]
                               else if c = 0xC9 then [0x45, 0x301] else [c]) s)"

definition toLowerCase0 :: "ustring \<Rightarrow> ustring" where
  "toLowerCase0 s = map (\<lambda>c. if 0x41 \<le> c \<and> c \<le> 0x5A then c + 0x20 else c) s"

definition parseFloat0 :: "ustring \<Rightarrow> jsnum" where
  "parseFloat0 s =
     (if s \<noteq> [] \<and> list_all (\<lambda>c. 0x30 \<le> c \<and> c \<le> 0x39) s
      then Num (of_nat (foldl (\<lambda>n c. 10 * n + (c - 0x30)) 0 s)) else NaN)"

definition dateParse0 :: "ustring \<Rightarrow> int option" where
  "dateParse0 s =
     (if s = asc ''2030-01-01T00:00:00Z'' then Some 1893456000000
      else if s = asc ''2030-01-02T00:00:00Z'' then Some 1893542400000
      else None)"

definition haversine0 :: "jsnum \<Rightarrow> jsnum \<Rightarrow> jsnum \<Rightarrow> jsnum \<Rightarrow> jsnum" where
  "haversine0 aLat aLon bLat bLon = (if aLat = bLat \<and> aLon = bLon then Num 0 else NaN)"

fun localeCompare0 :: "ustring \<Rightarrow> ustring \<Rightarrow> int" where
  "localeCompare0 [] [] = 0"
| "localeCompare0 [] (d # ds) = -1"
| "localeCompare0 (c # cs) [] = 1"
| "localeCompare0 (c # cs) (d # ds) =
     (if c < d then -1 else if d < c then 1 else localeCompare0 cs ds)"

text \<open>
  V8 sorts a short array in two steps. It takes the run at the start of the array: the
  second element is compared with the first, and the run is strictly descending when
  the comparator is negative there and ascending otherwise; the run goes on while each
  element compares that way with the one before it, and a descending run is reversed.
  Then every remaining element is put into the sorted part by binary insertion: it goes
  to the left half when it compares negative with the middle element, to the right half
  otherwise.
\<close>

fun takeRun :: "('a \<Rightarrow> 'a \<Rightarrow> int) \<Rightarrow> bool \<Rightarrow> 'a \<Rightarrow> 'a list \<Rightarrow> 'a list \<times> 'a list" where
  "takeRun c desc prev [] = ([], [])"
| "takeRun c desc prev (y # ys) =
     (if (c y prev < 0) = desc
      then (case takeRun c desc y ys of (run, rest) \<Rightarrow> (y # run, rest))
      else ([], y # ys))"

fun countAndMakeRun :: "('a \<Rightarrow> 'a \<Rightarrow> int) \<Rightarrow> 'a list \<Rightarrow> 'a list \<times> 'a list" where
  "countAndMakeRun c (x # y # zs) =
     (let desc = (c y x < 0) in
      case takeRun c desc y zs of
        (run, rest) \<Rightarrow> (if desc then rev (x # y # run) else x # y # run, rest))"
| "countAndMakeRun c xs = (xs, [])"

function binarySearch :: "('a \<Rightarrow> 'a \<Rightarrow> int) \<Rightarrow> 'a \<Rightarrow> 'a list \<Rightarrow> nat \<Rightarrow> nat \<Rightarrow> nat" where
  "binarySearch c pivot xs left right =
     (if left < right
      then (let mid = left + (right - left) div 2 in
            if c pivot (xs ! mid) < 0 then binarySearch c pivot xs left mid
            else binarySearch c pivot xs (mid + 1) right)
      else left)"
  by pat_completeness auto
termination
  by (relation "measure (\<lambda>(c, pivot, xs, left, right). right - left)") auto

fun binaryInsertionSort :: "('a \<Rightarrow> 'a \<Rightarrow> int) \<Rightarrow> 'a list \<Rightarrow> 'a list \<Rightarrow> 'a list" where
  "binaryInsertionSort c done [] = done"
| "binaryInsertionSort c done (pivot # rest) =
     (let k = binarySearch c pivot done 0 (length done) in
      binaryInsertionSort c (take k done @ pivot # drop k done) rest)"

definition sortShort :: "('a \<Rightarrow> 'a \<Rightarrow> int) \<Rightarrow> 'a list \<Rightarrow> 'a list" where
  "sortShort c xs =
     (case countAndMakeRun c xs of (run, rest) \<Rightarrow> binaryInsertionSort c run rest)"

definition P0 :: platform where
  "P0 = \<lparr>nfkd = nfkd0, toLowerCase = toLowerCase0, parseFloat = parseFloat0,
     dateParse = dateParse0, dateNow = 1767225600000, haversine = haversine0,
     localeCompare = localeCompare0, sortEngine = sortShort\<rparr>"

text \<open>An event with one performer and no venue, for the examples.\<close>

definition mkEvent :: "string \<Rightarrow> string \<Rightarrow> string \<Rightarrow> TMEvent" where
  "mkEvent title attId attName =
     \<lparr>ev_id = asc ''E1'', ev_name = asc title, ev_url = asc ''u'', ev_dateTime = None,
      ev_attractions = Some [\<lparr>a_id = asc attId, a_name = asc attName\<rparr>], ev_venues = None\<rparr>"

text \<open>
  Containment as a substring, the plain reading of "the title contains a marker term".
\<close>

definition containsStr :: "ustring \<Rightarrow> ustring \<Rightarrow> bool" where
  "containsStr s t = list_ex (\<lambda>i. take (length t) (drop i s) = t) [0..<Suc (length s)]"

text \<open>Items for the examples of \<open>dedupe\<close>: key fields only, and a full item.\<close>

definition keyOnly :: "string option \<Rightarrow> string \<Rightarrow> EventKey" where
  "keyOnly src sid =
     \<lparr>source = map_option asc src, source_id = Some (asc sid), url = Some (asc ''u''),
      event_name = Some (asc ''Show''), start_utc = None\<rparr>"

definition item0 :: "string \<Rightarrow> string \<Rightarrow> EventItem" where
  "item0 title venue =
     \<lparr>source = Some (asc ''tm''), source_id = Some (asc ''E1''), url = Some (asc ''u''),
      event_name = Some (asc title), start_utc = None, artist_name = Some (asc ''Muse''),
      venue_name = Some (asc venue), city = None, state = None, country = None,
      lat = None, lon = None\<rparr>"

text \<open>A ranking context and events without coordinates, for the examples of \<open>rank\<close>.\<close>

definition ctx0 :: RankCtx where
  "ctx0 = \<lparr>userLat = None, userLon = None,
     likedArtistNames = {asc ''muse''},
     topArtistNames = {asc ''muse'', asc ''queen''},
     followedArtistNames = {asc ''abba''},
     preferredArtistNames = Some {asc ''muse'', asc ''queen'', asc ''abba'', asc ''kiss''},
     profile = Some ArtistHeavy\<rparr>"

definition rankItem :: "string option \<Rightarrow> string \<Rightarrow> string option \<Rightarrow> EventItem" where
  "rankItem artist title start =
     \<lparr>source = Some (asc ''tm''), source_id = Some (asc title), url = Some (asc ''u''),
      event_name = Some (asc title), start_utc = map_option asc start,
      artist_name = map_option asc artist,
      venue_name = None, city = None, state = None, country = None,
      lat = None, lon = None\<rparr>"

text \<open>
  Three events of an artist outside every tier, without coordinates: two with a start
  in January 2030 and one without a start.
\<close>

definition evA :: EventItem where "evA = rankItem (Some ''x'') ''c'' (Some ''2030-01-01T00:00:00Z'')"
definition evB :: EventItem where "evB = rankItem (Some ''x'') ''a'' (Some ''2030-01-02T00:00:00Z'')"
definition evC :: EventItem where "evC = rankItem (Some ''x'') ''b'' None"

text \<open>
  A worker for the example of \<open>runLimited\<close>: it raises on the input 3, resolves to one
  value on 4, to \<open>undefined\<close> on 5 and to an array of two values otherwise.
\<close>

definition sampleWorker :: "nat \<Rightarrow> error + nat ret" where
  "sampleWorker x =
     (if x = 3 then Inl Thrown
      else if x = 4 then Inr (RValue 40)
      else if x = 5 then Inr RUndefined
      else Inr (RArray [10 * x, 10 * x + 1]))"

text \<open>Events that differ in their source id only, for the example of the response.\<close>

definition numbered :: "nat \<Rightarrow> EventItem" where
  "numbered i =
     \<lparr>source = Some (asc ''tm''), source_id = Some [i], url = Some (asc ''u''),
      event_name = Some (asc ''show''), start_utc = None, artist_name = Some (asc ''muse''),
      venue_name = None, city = None, state = None, country = None,
      lat = None, lon = None\<rparr>"

text \<open>
  The two loops with a set \<open>seen\<close> (\<open>dedupe\<close>, \<open>uniquePreserveOrder\<close>) as one recursion
  over the list, for the proofs.
\<close>

fun firsts :: "('a \<Rightarrow> 'k) \<Rightarrow> 'k set \<Rightarrow> 'a list \<Rightarrow> 'a list" where
  "firsts key seen [] = []"
| "firsts key seen (x # xs) =
     (if key x \<in> seen then firsts key seen xs else x # firsts key (insert (key x) seen) xs)"

section \<open>Properties of \<open>norm\<close>\<close>















lemma P0_sel:
  "nfkd P0 = nfkd0" "toLowerCase P0 = toLowerCase0" "parseFloat P0 = parseFloat0"
  "dateParse P0 = dateParse0" "dateNow P0 = 1767225600000" "haversine P0 = haversine0"
  "localeCompare P0 = localeCompare0" "sortEngine P0 = sortShort"
  by (simp_all add: P0_def)

lemmas norm_eval = normStr_def P0_sel nfkd0_def toLowerCase0_def asc_def isCombining_def
  unifyApostrophe_def isLowerAlnum_def isWhiteSpace_def trim_def



section \<open>Properties of \<open>mapEvents\<close>\<close>

lemmas map_eval = mapEvents_def mapEvent_def attractionsOf_def attractionOk_def mkEvent_def
  emptyVenue_def parseCoord_def

lemma mapEventsLoop_eq:
  "mapEventsLoop P an eid en nE evs out = out @ List.map_filter (mapEvent P an eid en nE) evs"
  by (induction evs arbitrary: out) (auto simp: List.map_filter_simps split: option.splits)

lemma mapEvents_eq:
  "mapEvents P an evs eid en =
     List.map_filter (mapEvent P an eid en (normStr P (Some (orElse en an)))) evs"
  by (simp add: mapEvents_def mapEventsLoop_eq)

lemma map_filter_app: "List.map_filter f (xs @ ys) = List.map_filter f xs @ List.map_filter f ys"
  by (simp add: List.map_filter_def)

lemma mapEvents_drop:
  "mapEvent P an eid en (normStr P (Some (orElse en an))) ev = None \<Longrightarrow>
   mapEvents P an [ev] eid en = [] \<and>
   mapEvents P an (evs1 @ ev # evs2) eid en = mapEvents P an (evs1 @ evs2) eid en"
  by (simp add: mapEvents_eq map_filter_app List.map_filter_simps)

lemma mapEvent_unmatched:
  "\<forall>a\<in>set (attractionsOf ev). \<not> attractionOk P eid en nE a \<Longrightarrow> mapEvent P an eid en nE ev = None"
  by (simp add: mapEvent_def find_None_iff[THEN iffD2])

text \<open>
  Claim C1. With a non-empty \<open>ensureId\<close> and a non-empty expected name, a performer is
  accepted only if its id is \<open>ensureId\<close> and its normalized name is the normalized
  expected name; a record none of whose performers satisfies both yields no item, alone
  or among other records.
\<close>

theorem identity_mode_needs_id_and_name:
  assumes "eid \<noteq> []" and "en \<noteq> []"
  shows "(attractionOk P (Some eid) (Some en) (normStr P (Some en)) a \<longrightarrow>
            a_id a = eid \<and> normStr P (Some (a_name a)) = normStr P (Some en)) \<and>
         ((\<forall>a\<in>set (attractionsOf ev).
              \<not> (a_id a = eid \<and> normStr P (Some (a_name a)) = normStr P (Some en))) \<longrightarrow>
            mapEvents P artistName [ev] (Some eid) (Some en) = [] \<and>
            mapEvents P artistName (evs1 @ ev # evs2) (Some eid) (Some en) =
              mapEvents P artistName (evs1 @ evs2) (Some eid) (Some en))"
proof -
  have ok: "a_id b = eid \<and> normStr P (Some (a_name b)) = normStr P (Some en)"
    if "attractionOk P (Some eid) (Some en) (normStr P (Some en)) b" for b
    using that assms by (auto simp: attractionOk_def split: if_splits)
  have nE: "normStr P (Some (orElse (Some en) artistName)) = normStr P (Some en)"
    using assms by simp
  have "mapEvent P artistName (Some eid) (Some en) (normStr P (Some en)) ev = None"
    if "\<forall>a\<in>set (attractionsOf ev).
              \<not> (a_id a = eid \<and> normStr P (Some (a_name a)) = normStr P (Some en))"
    using that ok by (intro mapEvent_unmatched) blast
  then show ?thesis using ok[of a] mapEvents_drop[of P artistName "Some eid" "Some en" ev evs1 evs2]
    unfolding nE by blast
qed

theorem identity_mode_needs_id_and_name_witness:
  "mapEvents P0 (asc ''Muse'') [mkEvent ''Muse live'' ''K1'' ''Muse Tribute Band''] (Some (asc ''K1'')) (Some (asc ''Muse'')) = [] \<and>
   mapEvents P0 (asc ''Muse'') [mkEvent ''Muse live'' ''K1'' ''Muse''] (Some (asc ''K1'')) (Some (asc ''Muse'')) \<noteq> []"
proof -
  have 1: "asc ''K1'' \<noteq> []" and 2: "asc ''Muse'' \<noteq> []" by (simp_all add: asc_def)
  have 3: "\<forall>a\<in>set (attractionsOf (mkEvent ''Muse live'' ''K1'' ''Muse Tribute Band'')).
     \<not> (a_id a = asc ''K1'' \<and> normStr P0 (Some (a_name a)) = normStr P0 (Some (asc ''Muse'')))"
    by (simp add: attractionsOf_def mkEvent_def norm_eval)
  have 4: "mapEvents P0 (asc ''Muse'') [mkEvent ''Muse live'' ''K1'' ''Muse'']
      (Some (asc ''K1'')) (Some (asc ''Muse'')) \<noteq> []"
    by (simp add: map_eval norm_eval)
  note t = identity_mode_needs_id_and_name [OF 1 2, where P = P0
      and ev = "mkEvent ''Muse live'' ''K1'' ''Muse Tribute Band''" and artistName = "asc ''Muse''"
      and ?evs1.0 = "[]" and ?evs2.0 = "[]"]
  have 5: "mapEvents P0 (asc ''Muse'') [mkEvent ''Muse live'' ''K1'' ''Muse Tribute Band'']
      (Some (asc ''K1'')) (Some (asc ''Muse'')) = []"
    by (rule t [THEN conjunct2, THEN mp, OF 3, THEN conjunct1])
  from 5 4 show ?thesis by (rule conjI)
qed

lemma mapEvents_single:
  "mapEvents P an [ev] eid en \<noteq> [] \<longleftrightarrow>
   mapEvent P an eid en (normStr P (Some (orElse en an))) ev \<noteq> None"
  by (auto simp: mapEvents_eq List.map_filter_simps split: option.splits)

lemma mapEvent_Some_iff:
  "mapEvent P an eid en nE ev \<noteq> None \<longleftrightarrow>
   (\<exists>a\<in>set (attractionsOf ev). attractionOk P eid en nE a) \<and>
   \<not> (\<not> truthy eid \<and> nE \<noteq> [] \<and> bannedTitleTest (normStr P (Some (ev_name ev))))"
proof (cases "find (attractionOk P eid en nE) (attractionsOf ev)")
  case None
  then have "\<not> (\<exists>a\<in>set (attractionsOf ev). attractionOk P eid en nE a)"
    by (simp add: find_None_iff)
  with None show ?thesis by (simp add: mapEvent_def)
next
  case (Some m)
  then have "\<exists>a\<in>set (attractionsOf ev). attractionOk P eid en nE a"
    by (auto simp: find_Some_iff)
  with Some show ?thesis by (simp add: mapEvent_def Let_def)
qed

lemma attractionOk_name_mode:
  "\<not> truthy eid \<Longrightarrow>
   attractionOk P eid en nE a \<longleftrightarrow> nE \<noteq> [] \<and> normStr P (Some (a_name a)) = nE"
  by (simp add: attractionOk_def)

lemma bannedTitleTest_iff:
  "bannedTitleTest t \<longleftrightarrow>
   (\<exists>i\<le>length t. \<exists>m\<in>set bannedAlts.
      wordBoundary t i \<and> take (length m) (drop i t) = m \<and> wordBoundary t (i + length m))"
proof -
  have s: "set [0..<Suc (length t)] = {i. i \<le> length t}" by auto
  show ?thesis unfolding bannedTitleTest_def list_ex_iff matchesAt_def s by blast
qed

lemma norm_tribute: "normStr P0 (Some (asc ''Tribute to Queen'')) = asc ''tribute to queen''"
  by (simp add: norm_eval)

lemma banned_tribute: "bannedTitleTest (asc ''tribute to queen'')"
  by code_simp

lemma norm_midnight: "normStr P0 (Some (asc ''Midnight'')) = asc ''midnight''"
  by (simp add: norm_eval)

lemma not_banned_midnight: "\<not> bannedTitleTest (asc ''midnight'')"
  by code_simp

text \<open>
  Claim C2, amended. The title guard is the regular expression \<open>bannedTitle\<close>, whose
  alternatives stand between word boundaries: the test succeeds exactly when a marker
  occurs in the normalized title as a sequence of whole words. Without a (non-empty)
  \<open>ensureId\<close>, a record yields an item exactly when a performer is accepted and the test
  fails on the normalized title; with an \<open>ensureId\<close>, a record yields an item exactly
  when a performer is accepted, whatever the title.
\<close>

theorem title_guard_whole_words:
  "(\<not> truthy ensureId \<longrightarrow>
      (mapEvents P artistName [ev] ensureId expectedName \<noteq> [] \<longleftrightarrow>
         (\<exists>a\<in>set (attractionsOf ev).
            attractionOk P ensureId expectedName (normStr P (Some (orElse expectedName artistName))) a) \<and>
         \<not> bannedTitleTest (normStr P (Some (ev_name ev))))) \<and>
   (truthy ensureId \<longrightarrow>
      (mapEvents P artistName [ev] ensureId expectedName \<noteq> [] \<longleftrightarrow>
         (\<exists>a\<in>set (attractionsOf ev).
            attractionOk P ensureId expectedName (normStr P (Some (orElse expectedName artistName))) a))) \<and>
   (bannedTitleTest t \<longleftrightarrow>
      (\<exists>i\<le>length t. \<exists>m\<in>set bannedAlts.
         wordBoundary t i \<and> take (length m) (drop i t) = m \<and> wordBoundary t (i + length m)))"
proof (intro conjI impI)
  let ?nE = "normStr P (Some (orElse expectedName artistName))"
  assume n: "\<not> truthy ensureId"
  show "mapEvents P artistName [ev] ensureId expectedName \<noteq> [] \<longleftrightarrow>
         (\<exists>a\<in>set (attractionsOf ev). attractionOk P ensureId expectedName ?nE a) \<and>
         \<not> bannedTitleTest (normStr P (Some (ev_name ev)))"
    unfolding mapEvents_single mapEvent_Some_iff using n
    by (auto simp: attractionOk_name_mode)
next
  assume "truthy ensureId"
  then show "mapEvents P artistName [ev] ensureId expectedName \<noteq> [] \<longleftrightarrow>
         (\<exists>a\<in>set (attractionsOf ev).
            attractionOk P ensureId expectedName (normStr P (Some (orElse expectedName artistName))) a)"
    unfolding mapEvents_single mapEvent_Some_iff by simp
next
  show "bannedTitleTest t \<longleftrightarrow>
      (\<exists>i\<le>length t. \<exists>m\<in>set bannedAlts.
         wordBoundary t i \<and> take (length m) (drop i t) = m \<and> wordBoundary t (i + length m))"
    by (rule bannedTitleTest_iff)
qed

theorem title_guard_whole_words_witness:
  "mapEvents P0 (asc ''Queen'') [mkEvent ''Tribute to Queen'' ''K1'' ''Queen''] None None = [] \<and>
   mapEvents P0 (asc ''Queen'') [mkEvent ''Tribute to Queen'' ''K1'' ''Queen'']
     (Some (asc ''K1'')) (Some (asc ''Queen'')) \<noteq> []"
proof -
  have t: "normStr P0 (Some (ev_name (mkEvent ''Tribute to Queen'' ''K1'' ''Queen''))) = asc ''tribute to queen''"
    using norm_tribute by (simp add: mkEvent_def)
  have 1: "\<not> truthy None" by simp
  have 2: "truthy (Some (asc ''K1''))" by (simp add: asc_def)
  have 3: "\<exists>a\<in>set (attractionsOf (mkEvent ''Tribute to Queen'' ''K1'' ''Queen'')).
      attractionOk P0 (Some (asc ''K1'')) (Some (asc ''Queen''))
        (normStr P0 (Some (orElse (Some (asc ''Queen'')) (asc ''Queen'')))) a"
    by (simp add: attractionsOf_def attractionOk_def mkEvent_def norm_eval)
  note w = title_guard_whole_words [where P = P0 and artistName = "asc ''Queen''"
      and ev = "mkEvent ''Tribute to Queen'' ''K1'' ''Queen''"]
  have a: "mapEvents P0 (asc ''Queen'') [mkEvent ''Tribute to Queen'' ''K1'' ''Queen''] None None = []"
    using w [where ensureId = None and expectedName = None, THEN conjunct1, THEN mp, OF 1]
      banned_tribute unfolding t by blast
  have b: "mapEvents P0 (asc ''Queen'') [mkEvent ''Tribute to Queen'' ''K1'' ''Queen'']
     (Some (asc ''K1'')) (Some (asc ''Queen'')) \<noteq> []"
    using w [where ensureId = "Some (asc ''K1'')" and expectedName = "Some (asc ''Queen'')",
        THEN conjunct2, THEN conjunct1, THEN mp, OF 2] 3 by (rule iffD2)
  from a b show ?thesis by (rule conjI)
qed

text \<open>
  Claim C2 as stated fails for a marker that is part of a longer word: the normalized
  title "midnight" contains the marker "night", and the record is kept in name mode.
\<close>

theorem title_guard_substring_counterexample:
  "containsStr (normStr P0 (Some (asc ''Midnight''))) (asc ''night'') \<and>
   asc ''night'' \<in> set bannedAlts \<and>
   mapEvents P0 (asc ''Muse'') [mkEvent ''Midnight'' ''K1'' ''Muse''] None None \<noteq> []"
proof -
  have 1: "containsStr (normStr P0 (Some (asc ''Midnight''))) (asc ''night'')"
    unfolding norm_midnight by code_simp
  have 2: "asc ''night'' \<in> set bannedAlts" by (simp add: bannedAlts_def)
  have t: "normStr P0 (Some (asc ''Midnight'')) = asc ''midnight''" by (rule norm_midnight)
  have 3: "mapEvents P0 (asc ''Muse'') [mkEvent ''Midnight'' ''K1'' ''Muse''] None None \<noteq> []"
    unfolding mapEvents_single mapEvent_Some_iff
    by (simp add: attractionsOf_def attractionOk_def mkEvent_def t not_banned_midnight)
      (simp add: norm_eval)
  from 1 2 3 show ?thesis by blast
qed

lemma norm_live: "normStr P0 (Some (asc ''Live'')) = asc ''live''"
  by (simp add: norm_eval)

lemma not_banned_live: "\<not> bannedTitleTest (asc ''live'')"
  by code_simp

text \<open>
  Claim C3, amended. In name mode (\<open>mapEvents(artistName, events)\<close>) a performer is
  accepted exactly when the normalized target name is not empty and equals the
  performer's normalized name; there is no containment relaxation. A record yields an
  item exactly when the normalized target is not empty, some performer has the same
  normalized name and the title guard lets the title pass.
\<close>

theorem name_mode_exact_equality:
  "(attractionOk P None None (normStr P (Some target)) a \<longleftrightarrow>
      normStr P (Some target) \<noteq> [] \<and> normStr P (Some (a_name a)) = normStr P (Some target)) \<and>
   (mapEvents P target [ev] None None \<noteq> [] \<longleftrightarrow>
      normStr P (Some target) \<noteq> [] \<and>
      (\<exists>a\<in>set (attractionsOf ev). normStr P (Some (a_name a)) = normStr P (Some target)) \<and>
      \<not> bannedTitleTest (normStr P (Some (ev_name ev))))"
proof -
  have n: "\<not> truthy None" by simp
  have o: "orElse None target = target" by simp
  show ?thesis
    unfolding mapEvents_single mapEvent_Some_iff o attractionOk_name_mode[OF n]
    by auto
qed

theorem name_mode_exact_equality_witness:
  "mapEvents P0 (asc ''chris brown'') [mkEvent ''Live'' ''K1'' ''Chris Brown & Friends''] None None = [] \<and>
   mapEvents P0 (asc ''chris brown'') [mkEvent ''Live'' ''K1'' ''Chris Brown''] None None \<noteq> []"
proof -
  have 1: "normStr P0 (Some (asc ''chris brown'')) = asc ''chris brown''"
    and 2: "normStr P0 (Some (asc ''Chris Brown & Friends'')) = asc ''chris brown friends''"
    and 3: "normStr P0 (Some (asc ''Chris Brown'')) = asc ''chris brown''"
    by (simp_all add: norm_eval)
  have 4: "asc ''chris brown friends'' \<noteq> asc ''chris brown''" "asc ''chris brown'' \<noteq> []"
    by (simp_all add: asc_def)
  show ?thesis
    using name_mode_exact_equality [where P = P0 and target = "asc ''chris brown''"
        and ev = "mkEvent ''Live'' ''K1'' ''Chris Brown & Friends''", THEN conjunct2]
      name_mode_exact_equality [where P = P0 and target = "asc ''chris brown''"
        and ev = "mkEvent ''Live'' ''K1'' ''Chris Brown''", THEN conjunct2]
    by (simp add: attractionsOf_def mkEvent_def 1 2 3 4 norm_live not_banned_live)
qed

text \<open>
  Claim C3 as stated fails when the target normalizes to the empty string: for the
  artist name "!!!" the performer "!!!" has the same (empty) normalized name and is not
  accepted, because the comparison is guarded by \<open>nExpected ? ... : false\<close>.
\<close>

theorem name_mode_empty_target_counterexample:
  "normStr P0 (Some (a_name \<lparr>a_id = asc ''K1'', a_name = asc ''!!!''\<rparr>)) =
     normStr P0 (Some (asc ''!!!'')) \<and>
   \<not> attractionOk P0 None None (normStr P0 (Some (asc ''!!!'')))
       \<lparr>a_id = asc ''K1'', a_name = asc ''!!!''\<rparr> \<and>
   mapEvents P0 (asc ''!!!'') [mkEvent ''Live'' ''K1'' ''!!!''] None None = []"
proof -
  have 1: "normStr P0 (Some (asc ''!!!'')) = []" by (simp add: norm_eval)
  show ?thesis by (simp add: 1 map_eval List.map_filter_simps)
qed

section \<open>Properties of \<open>dedupe\<close> and of the artist pool\<close>

lemma firsts_index:
  "firsts key seen xs =
     map (\<lambda>i. xs ! i)
       (filter (\<lambda>i. key (xs ! i) \<notin> seen \<and> (\<forall>j<i. key (xs ! j) \<noteq> key (xs ! i))) [0..<length xs])"
proof (induction xs arbitrary: seen)
  case Nil
  show ?case by simp
next
  case (Cons x xs)
  have u: "[0..<length (x # xs)] = 0 # map Suc [0..<length xs]"
    by (simp add: upt_conv_Cons map_Suc_upt del: upt_Suc)
  show ?case
  proof (cases "key x \<in> seen")
    case True
    have "filter (\<lambda>i. key (xs ! i) \<notin> seen \<and> key x \<noteq> key (xs ! i) \<and> (\<forall>j<i. key (xs ! j) \<noteq> key (xs ! i))) [0..<length xs]
        = filter (\<lambda>i. key (xs ! i) \<notin> seen \<and> (\<forall>j<i. key (xs ! j) \<noteq> key (xs ! i))) [0..<length xs]"
      using True by (intro filter_cong) auto
    then show ?thesis
      unfolding u using True
      by (simp add: Cons.IH filter_map o_def All_less_Suc2)
  next
    case False
    have "filter (\<lambda>i. key (xs ! i) \<notin> seen \<and> key x \<noteq> key (xs ! i) \<and> (\<forall>j<i. key (xs ! j) \<noteq> key (xs ! i))) [0..<length xs]
        = filter (\<lambda>i. key (xs ! i) \<notin> insert (key x) seen \<and> (\<forall>j<i. key (xs ! j) \<noteq> key (xs ! i))) [0..<length xs]"
      by (intro filter_cong) auto
    then show ?thesis
      unfolding u using False
      by (simp add: Cons.IH filter_map o_def All_less_Suc2)
  qed
qed

lemma firsts_keepFirst: "firsts key {} xs = keepFirst key xs"
  by (simp add: firsts_index keepFirst_def)

lemma dedupeLoop_firsts: "dedupeLoop P seen out es = out @ firsts (dedupeKey P) seen es"
  by (induction es arbitrary: seen out) (simp_all add: Let_def)

lemma uniqueLoop_firsts: "uniqueLoop P seen out ns = out @ firsts (toLowerCase P) seen ns"
  by (induction ns arbitrary: seen out) (simp_all add: Let_def)

lemma dedupe_firsts: "dedupe P items = firsts (dedupeKey P) {} items"
  by (simp add: dedupe_def dedupeLoop_firsts)

lemmas key_eval = dedupeKey_def specKey_def keyOnly_def item0_def P0_sel toLowerCase0_def asc_def

text \<open>
  Claim C4, amended. \<open>dedupe\<close> keeps, in their order, exactly the items whose key string
  no earlier item has; the key string is the template of line 146: the source (or "tm"
  when it is missing or empty), the source id, the url, the lower-cased event name and
  the start, joined by "|", each of the last four empty when missing. Two items with the
  same key string collapse to the earlier, two with different key strings are both kept,
  and the venue name is no part of the key.
\<close>

theorem dedupe_keeps_first_per_key:
  "dedupe P items = keepFirst (dedupeKey P) items \<and>
   (dedupeKey P a = dedupeKey P b \<longrightarrow> dedupe P [a, b] = [a]) \<and>
   (dedupeKey P a \<noteq> dedupeKey P b \<longrightarrow> dedupe P [a, b] = [a, b]) \<and>
   dedupeKey P (e\<lparr>venue_name := v\<rparr>) = dedupeKey P e"
  by (simp add: dedupe_firsts firsts_keepFirst [symmetric] dedupeKey_def)

theorem dedupe_keeps_first_per_key_witness:
  "dedupe P0 [item0 ''Show'' ''Arena'', item0 ''SHOW'' ''Stadium''] = [item0 ''Show'' ''Arena''] \<and>
   dedupe P0 [item0 ''Show'' ''Arena'', item0 ''Other'' ''Arena''] =
     [item0 ''Show'' ''Arena'', item0 ''Other'' ''Arena''] \<and>
   keepFirst (dedupeKey P0) [item0 ''Show'' ''Arena'', item0 ''SHOW'' ''Stadium''] = [item0 ''Show'' ''Arena'']"
proof -
  have 1: "dedupeKey P0 (item0 ''Show'' ''Arena'') = dedupeKey P0 (item0 ''SHOW'' ''Stadium'')"
    by (simp add: key_eval)
  have 2: "dedupeKey P0 (item0 ''Show'' ''Arena'') \<noteq> dedupeKey P0 (item0 ''Other'' ''Arena'')"
    by (simp add: key_eval)
  note t = dedupe_keeps_first_per_key [where P = P0 and a = "item0 ''Show'' ''Arena''"]
  have a: "dedupe P0 [item0 ''Show'' ''Arena'', item0 ''SHOW'' ''Stadium''] = [item0 ''Show'' ''Arena'']"
    by (rule t [where b = "item0 ''SHOW'' ''Stadium''", THEN conjunct2, THEN conjunct1, THEN mp, OF 1])
  have b: "dedupe P0 [item0 ''Show'' ''Arena'', item0 ''Other'' ''Arena''] =
     [item0 ''Show'' ''Arena'', item0 ''Other'' ''Arena'']"
    by (rule t [where b = "item0 ''Other'' ''Arena''", THEN conjunct2, THEN conjunct2, THEN conjunct1, THEN mp, OF 2])
  have c: "keepFirst (dedupeKey P0) [item0 ''Show'' ''Arena'', item0 ''SHOW'' ''Stadium''] = [item0 ''Show'' ''Arena'']"
    using t [where items = "[item0 ''Show'' ''Arena'', item0 ''SHOW'' ''Stadium'']", THEN conjunct1] a by simp
  from a b c show ?thesis by blast
qed

text \<open>
  Claim C4 as stated fails for a missing source: it is read as "tm", not as the empty
  string. An item without source and a later item with source "tm", equal otherwise,
  have different keys in the sense of the claim, and \<open>dedupe\<close> removes the later one.
\<close>

theorem dedupe_missing_source_counterexample:
  "specKey P0 (keyOnly None ''E1'') \<noteq> specKey P0 (keyOnly (Some ''tm'') ''E1'') \<and>
   keepFirst (specKey P0) [keyOnly None ''E1'', keyOnly (Some ''tm'') ''E1''] =
     [keyOnly None ''E1'', keyOnly (Some ''tm'') ''E1''] \<and>
   dedupe P0 [keyOnly None ''E1'', keyOnly (Some ''tm'') ''E1''] = [keyOnly None ''E1'']"
proof -
  have 1: "specKey P0 (keyOnly None ''E1'') \<noteq> specKey P0 (keyOnly (Some ''tm'') ''E1'')"
    by (simp add: key_eval)
  have 2: "keepFirst (specKey P0) [keyOnly None ''E1'', keyOnly (Some ''tm'') ''E1''] =
     [keyOnly None ''E1'', keyOnly (Some ''tm'') ''E1'']"
    unfolding firsts_keepFirst [symmetric] using 1 by simp
  have 3: "dedupe P0 [keyOnly None ''E1'', keyOnly (Some ''tm'') ''E1''] = [keyOnly None ''E1'']"
    unfolding dedupe_firsts by (simp add: key_eval)
  from 1 2 3 show ?thesis by blast
qed

lemma uniquePreserveOrder_keepFirst:
  "uniquePreserveOrder P ns = keepFirst (toLowerCase P) ns"
  by (simp add: uniquePreserveOrder_def uniqueLoop_firsts firsts_keepFirst)

text \<open>
  Claim C7. For a cap that is not negative, the pool \<open>names\<close> is the concatenation of the
  liked, top and followed names without the names whose lower-case form is in the
  ignore set, reduced to the first occurrence of every lower-case form, and cut to its
  first \<open>cap\<close> entries.
\<close>

theorem artist_pool_first_occurrences:
  assumes "0 \<le> cap"
  shows "names (artistPool P ignoreSet savedTracks tops followed cap) =
     take (nat cap)
       (keepFirst (toLowerCase P)
          (filter (\<lambda>n. toLowerCase P n \<notin> ignoreSet) (savedTracks @ tops @ followed)))"
proof -
  have "notIgnored P ignoreSet = (\<lambda>n. toLowerCase P n \<notin> ignoreSet)"
    by (rule ext) (simp add: notIgnored_def)
  then have f: "filter (notIgnored P ignoreSet) xs = filter (\<lambda>n. toLowerCase P n \<notin> ignoreSet) xs" for xs
    by simp
  show ?thesis
    using assms
    by (simp add: artistPool_def Let_def f uniquePreserveOrder_keepFirst sliceTo_def)
qed

theorem artist_pool_first_occurrences_witness:
  "names (artistPool P0 {} [asc ''A'', asc ''b'', asc ''A''] [asc ''B''] [] 10) = [asc ''A'', asc ''b''] \<and>
   names (artistPool P0 {asc ''b''} [asc ''A'', asc ''b'', asc ''A''] [asc ''B'', asc ''c'', asc ''d''] [] 2)
     = [asc ''A'', asc ''c'']"
proof -
  have c: "(0::int) \<le> 10" "(0::int) \<le> 2" by simp_all
  show ?thesis
    unfolding artist_pool_first_occurrences [OF c(1)] artist_pool_first_occurrences [OF c(2)]
      firsts_keepFirst [symmetric]
    by (simp add: P0_sel toLowerCase0_def asc_def)
qed

section \<open>Properties of \<open>rank\<close>\<close>

lemmas rank_eval = rankCmp_def cmpCloser_def scoreEvent_def distMiles_def locScore_def
  dateScore_def daysUntil_def mathRoundDiv_def artistScore_def nameLc_def toLc_def preferred_def
  jsNeq_def ART_LIKED_def ART_TOP_def ART_FOLLOW_def ART_PREF_def ART_OTHER_def
  EventItem.defs Scored.defs EventKey.defs ctx0_def rankItem_def P0_sel dateParse0_def toLowerCase0_def asc_def

lemmas name_eval = nameLc_def toLc_def preferred_def ctx0_def rankItem_def P0_sel toLowerCase0_def asc_def

text \<open>
  Claim C6. The lookup key of the artist score is the lower-cased artist name, and the
  lower-cased event title when that is empty, as it is for an absent artist name. The
  artist score is 140 when the key is in the liked set, otherwise 95 when it is in the
  top set, otherwise 75 when it is in the followed set, otherwise 40 when the context
  has a set of preferred names and the key is in it, and 0 otherwise; it is the first
  of the three summands of the score.
\<close>

theorem artist_tier_score:
  "nameLc P e =
     (if toLowerCase P (orElse (artist_name e) []) \<noteq> []
      then toLowerCase P (orElse (artist_name e) [])
      else toLowerCase P (orElse (event_name e) [])) \<and>
   (artist_name e = None \<longrightarrow> toLowerCase P [] = [] \<longrightarrow>
      nameLc P e = toLowerCase P (orElse (event_name e) [])) \<and>
   (nameLc P e \<in> likedArtistNames ctx \<longrightarrow> artistScore P ctx e = 140) \<and>
   (nameLc P e \<notin> likedArtistNames ctx \<longrightarrow> nameLc P e \<in> topArtistNames ctx \<longrightarrow>
      artistScore P ctx e = 95) \<and>
   (nameLc P e \<notin> likedArtistNames ctx \<longrightarrow> nameLc P e \<notin> topArtistNames ctx \<longrightarrow>
      nameLc P e \<in> followedArtistNames ctx \<longrightarrow> artistScore P ctx e = 75) \<and>
   (nameLc P e \<notin> likedArtistNames ctx \<longrightarrow> nameLc P e \<notin> topArtistNames ctx \<longrightarrow>
      nameLc P e \<notin> followedArtistNames ctx \<longrightarrow>
      preferredArtistNames ctx = Some p \<longrightarrow> nameLc P e \<in> p \<longrightarrow>
      artistScore P ctx e = 40) \<and>
   (nameLc P e \<notin> likedArtistNames ctx \<longrightarrow> nameLc P e \<notin> topArtistNames ctx \<longrightarrow>
      nameLc P e \<notin> followedArtistNames ctx \<longrightarrow>
      preferredArtistNames ctx = Some p \<longrightarrow> nameLc P e \<notin> p \<longrightarrow>
      artistScore P ctx e = 0) \<and>
   (nameLc P e \<notin> likedArtistNames ctx \<longrightarrow> nameLc P e \<notin> topArtistNames ctx \<longrightarrow>
      nameLc P e \<notin> followedArtistNames ctx \<longrightarrow>
      preferredArtistNames ctx = None \<longrightarrow> artistScore P ctx e = 0) \<and>
   score (scoreEvent P ctx e) = artistScore P ctx e + locScore P ctx e + dateScore P e"
  by (simp add: nameLc_def toLc_def artistScore_def preferred_def scoreEvent_def ART_LIKED_def
      ART_TOP_def ART_FOLLOW_def ART_PREF_def ART_OTHER_def EventItem.defs Scored.defs)

theorem artist_tier_score_witness:
  "artistScore P0 ctx0 (rankItem (Some ''Muse'') ''Live'' None) = 140 \<and>
   artistScore P0 ctx0 (rankItem None ''QUEEN'' None) = 95 \<and>
   artistScore P0 ctx0 (rankItem (Some ''Abba'') ''Queen'' None) = 75 \<and>
   artistScore P0 ctx0 (rankItem (Some ''KISS'') ''Muse'' None) = 40 \<and>
   artistScore P0 ctx0 (rankItem (Some ''x'') ''Muse'' None) = 0 \<and>
   artistScore P0 (ctx0\<lparr>preferredArtistNames := None\<rparr>) (rankItem (Some ''KISS'') ''Muse'' None) = 0"
proof -
  note t = artist_tier_score [where P = P0
      and p = "{asc ''muse'', asc ''queen'', asc ''abba'', asc ''kiss''}"]
  have a: "artistScore P0 ctx0 (rankItem (Some ''Muse'') ''Live'' None) = 140"
    by (rule t [where ctx = ctx0 and e = "rankItem (Some ''Muse'') ''Live'' None",
          THEN conjunct2, THEN conjunct2, THEN conjunct1, THEN mp])
      (simp add: name_eval)
  have b: "artistScore P0 ctx0 (rankItem None ''QUEEN'' None) = 95"
    by (rule t [where ctx = ctx0 and e = "rankItem None ''QUEEN'' None",
          THEN conjunct2, THEN conjunct2, THEN conjunct2, THEN conjunct1, THEN mp, THEN mp])
      (simp_all add: name_eval)
  have c: "artistScore P0 ctx0 (rankItem (Some ''Abba'') ''Queen'' None) = 75"
    by (rule t [where ctx = ctx0 and e = "rankItem (Some ''Abba'') ''Queen'' None",
          THEN conjunct2, THEN conjunct2, THEN conjunct2, THEN conjunct2, THEN conjunct1,
          THEN mp, THEN mp, THEN mp])
      (simp_all add: name_eval)
  have d: "artistScore P0 ctx0 (rankItem (Some ''KISS'') ''Muse'' None) = 40"
    by (rule t [where ctx = ctx0 and e = "rankItem (Some ''KISS'') ''Muse'' None",
          THEN conjunct2, THEN conjunct2, THEN conjunct2, THEN conjunct2, THEN conjunct2,
          THEN conjunct1, THEN mp, THEN mp, THEN mp, THEN mp, THEN mp])
      (simp_all add: name_eval)
  have e: "artistScore P0 ctx0 (rankItem (Some ''x'') ''Muse'' None) = 0"
    by (rule t [where ctx = ctx0 and e = "rankItem (Some ''x'') ''Muse'' None",
          THEN conjunct2, THEN conjunct2, THEN conjunct2, THEN conjunct2, THEN conjunct2,
          THEN conjunct2, THEN conjunct1, THEN mp, THEN mp, THEN mp, THEN mp, THEN mp])
      (simp_all add: name_eval)
  have f: "artistScore P0 (ctx0\<lparr>preferredArtistNames := None\<rparr>)
      (rankItem (Some ''KISS'') ''Muse'' None) = 0"
    by (rule t [where ctx = "ctx0\<lparr>preferredArtistNames := None\<rparr>"
          and e = "rankItem (Some ''KISS'') ''Muse'' None",
          THEN conjunct2, THEN conjunct2, THEN conjunct2, THEN conjunct2, THEN conjunct2,
          THEN conjunct2, THEN conjunct2, THEN conjunct1, THEN mp, THEN mp, THEN mp, THEN mp])
      (simp_all add: name_eval)
  from a b c d e f show ?thesis by simp
qed

lemma abc_scores:
  "score (scoreEvent P0 ctx0 evA) = 0" "score (scoreEvent P0 ctx0 evB) = 0"
  "score (scoreEvent P0 ctx0 evC) = 0"
  by (simp_all add: rank_eval evA_def evB_def evC_def)

lemma abc_before:
  "rankCmp P0 ctx0 (scoreEvent P0 ctx0 evA) (scoreEvent P0 ctx0 evB) < 0"
  "rankCmp P0 ctx0 (scoreEvent P0 ctx0 evB) (scoreEvent P0 ctx0 evC) < 0"
  "rankCmp P0 ctx0 (scoreEvent P0 ctx0 evC) (scoreEvent P0 ctx0 evA) < 0"
  by (simp_all add: rank_eval evA_def evB_def evC_def)

lemma abc_after:
  "0 < rankCmp P0 ctx0 (scoreEvent P0 ctx0 evB) (scoreEvent P0 ctx0 evA)"
  "0 < rankCmp P0 ctx0 (scoreEvent P0 ctx0 evC) (scoreEvent P0 ctx0 evB)"
  "0 < rankCmp P0 ctx0 (scoreEvent P0 ctx0 evA) (scoreEvent P0 ctx0 evC)"
  by (simp_all add: rank_eval evA_def evB_def evC_def)

lemma arraySort_same_length:
  "length (sortEngine P c xs) = length xs \<Longrightarrow> arraySort P c xs = sortEngine P c xs"
  by (auto simp: arraySort_def Let_def intro!: nth_equalityI)

text \<open>
  Claim C5 at the events \<open>evA\<close>, \<open>evB\<close>, \<open>evC\<close>. The three have the same score. The
  comparator puts \<open>evA\<close> before \<open>evB\<close> (both starts parse, the earlier first), \<open>evB\<close>
  before \<open>evC\<close> and \<open>evC\<close> before \<open>evA\<close> (one start does not parse, so the dates are
  skipped; the distances are equal; the names decide). The comparison is a cycle, not an
  order, and none of the six arrangements of the three events is in the order of the
  comparator. For the input \<open>[evA, evC, evB]\<close> the engine finds one strictly descending
  run and reverses it: \<open>rank\<close> returns \<open>evB\<close> ahead of \<open>evA\<close>, the later start first.
  For the input \<open>[evC, evA, evB]\<close> it finds one ascending run and returns the events as
  they came, so the result depends on the order of the input.
\<close>

theorem rank_comparator_cycle:
  "score (scoreEvent P0 ctx0 evA) = score (scoreEvent P0 ctx0 evB) \<and>
   score (scoreEvent P0 ctx0 evB) = score (scoreEvent P0 ctx0 evC) \<and>
   rankCmp P0 ctx0 (scoreEvent P0 ctx0 evA) (scoreEvent P0 ctx0 evB) < 0 \<and>
   rankCmp P0 ctx0 (scoreEvent P0 ctx0 evB) (scoreEvent P0 ctx0 evC) < 0 \<and>
   rankCmp P0 ctx0 (scoreEvent P0 ctx0 evC) (scoreEvent P0 ctx0 evA) < 0 \<and>
   list_all (\<lambda>p. \<not> inOrder (rankCmp P0 ctx0) (map (scoreEvent P0 ctx0) p))
     [[evA, evB, evC], [evA, evC, evB], [evB, evA, evC],
      [evB, evC, evA], [evC, evA, evB], [evC, evB, evA]] \<and>
   rank P0 [evA, evC, evB] ctx0 = map (scoreEvent P0 ctx0) [evB, evC, evA] \<and>
   rank P0 [evC, evA, evB] ctx0 = map (scoreEvent P0 ctx0) [evC, evA, evB]"
proof -
  have le: "\<not> rankCmp P0 ctx0 (scoreEvent P0 ctx0 evB) (scoreEvent P0 ctx0 evA) \<le> 0"
    "\<not> rankCmp P0 ctx0 (scoreEvent P0 ctx0 evC) (scoreEvent P0 ctx0 evB) \<le> 0"
    "\<not> rankCmp P0 ctx0 (scoreEvent P0 ctx0 evA) (scoreEvent P0 ctx0 evC) \<le> 0"
    using abc_after by simp_all
  have p: "list_all (\<lambda>p. \<not> inOrder (rankCmp P0 ctx0) (map (scoreEvent P0 ctx0) p))
     [[evA, evB, evC], [evA, evC, evB], [evB, evA, evC],
      [evB, evC, evA], [evC, evA, evB], [evC, evB, evA]]"
    by (simp add: le)
  have e: "sortEngine P0 (rankCmp P0 ctx0) (map (scoreEvent P0 ctx0) [evA, evC, evB]) =
      map (scoreEvent P0 ctx0) [evB, evC, evA]"
    by (simp add: P0_sel sortShort_def abc_before)
  have r: "rank P0 [evA, evC, evB] ctx0 = map (scoreEvent P0 ctx0) [evB, evC, evA]"
    unfolding rank_def by (subst arraySort_same_length) (simp_all only: e length_map list.size)
  have nlt: "\<not> rankCmp P0 ctx0 (scoreEvent P0 ctx0 evB) (scoreEvent P0 ctx0 evA) < 0"
    "\<not> rankCmp P0 ctx0 (scoreEvent P0 ctx0 evA) (scoreEvent P0 ctx0 evC) < 0"
    using abc_after by simp_all
  have e': "sortEngine P0 (rankCmp P0 ctx0) (map (scoreEvent P0 ctx0) [evC, evA, evB]) =
      map (scoreEvent P0 ctx0) [evC, evA, evB]"
    by (simp add: P0_sel sortShort_def nlt)
  have r': "rank P0 [evC, evA, evB] ctx0 = map (scoreEvent P0 ctx0) [evC, evA, evB]"
    unfolding rank_def by (subst arraySort_same_length) (simp_all only: e' length_map list.size)
  show ?thesis using abc_scores abc_before p r r' by simp
qed

section \<open>Properties of the response\<close>

lemma length_rank: "length (rank P events ctx) = length events"
  by (simp add: rank_def arraySort_def Let_def)

lemma firsts_distinct:
  "distinct (map key xs) \<Longrightarrow> key ` set xs \<inter> seen = {} \<Longrightarrow> firsts key seen xs = xs"
  by (induction xs arbitrary: seen) auto

lemma numbered_key_inj: "inj (\<lambda>i. dedupeKey P0 (numbered i))"
  by (rule injI) (simp add: dedupeKey_def numbered_def)

lemma dedupe_numbered: "dedupe P0 (map numbered [0..<n]) = map numbered [0..<n]"
proof -
  have "distinct (map (dedupeKey P0) (map numbered [0..<n]))"
    unfolding map_map o_def
    by (rule distinct_map[THEN iffD2]) (simp add: inj_on_subset[OF numbered_key_inj])
  then show ?thesis unfolding dedupe_firsts by (rule firsts_distinct) simp
qed

text \<open>
  Claim C10. The response carries the first 220 ranked events at most, and its count is
  the length of the whole ranked list, which is the length of the deduplicated list;
  when more than 220 events are ranked, 220 are returned and the count is greater.
\<close>

theorem response_count_and_cut:
  "resp_count (eventsResponse P ctx all) = length (rank P (dedupe P all) ctx) \<and>
   resp_count (eventsResponse P ctx all) = length (dedupe P all) \<and>
   resp_events (eventsResponse P ctx all) = take 220 (rank P (dedupe P all) ctx) \<and>
   length (resp_events (eventsResponse P ctx all)) \<le> 220 \<and>
   (220 < length (rank P (dedupe P all) ctx) \<longrightarrow>
      length (resp_events (eventsResponse P ctx all)) = 220 \<and>
      length (resp_events (eventsResponse P ctx all)) < resp_count (eventsResponse P ctx all))"
  by (simp add: eventsResponse_def Let_def sliceTo_def length_rank)

theorem response_count_and_cut_witness:
  "resp_count (eventsResponse P0 ctx0 (map numbered [0..<221])) = 221 \<and>
   length (resp_events (eventsResponse P0 ctx0 (map numbered [0..<221]))) = 220"
proof -
  have l: "220 < length (rank P0 (dedupe P0 (map numbered [0..<221])) ctx0)"
    by (simp add: length_rank dedupe_numbered)
  note t = response_count_and_cut [where P = P0 and ctx = ctx0 and all = "map numbered [0..<221]"]
  have a: "resp_count (eventsResponse P0 ctx0 (map numbered [0..<221])) = 221"
    using t [THEN conjunct2, THEN conjunct1] by (simp add: dedupe_numbered)
  have b: "length (resp_events (eventsResponse P0 ctx0 (map numbered [0..<221]))) = 220"
    by (rule t [THEN conjunct2, THEN conjunct2, THEN conjunct2, THEN conjunct2, THEN mp, OF l, THEN conjunct1])
  from a b show ?thesis by (rule conjI)
qed

section \<open>Properties of \<open>runLimited\<close>\<close>

lemma pushResult_append: "pushResult rs r = rs @ pushResult [] r"
  by (cases "(rs, r)" rule: pushResult.cases) auto

lemma sum_owed_update:
  "w < length ts \<Longrightarrow>
   sum_list (map (owed worker inputs) (ts[w := p])) + owed worker inputs (ts ! w) =
   sum_list (map (owed worker inputs) ts) + owed worker inputs p"
proof (induction ts arbitrary: w)
  case Nil then show ?case by simp
next
  case (Cons t ts)
  then show ?case by (cases w) (auto simp: ac_simps)
qed

lemma claim_owed:
  "owed worker inputs (claim (length inputs) i) +
     mset (concat (map (outputsOf worker) (drop (Suc i) inputs))) =
   mset (concat (map (outputsOf worker) (drop i inputs)))"
proof (cases "i < length inputs")
  case True
  then have "drop i inputs = inputs ! i # drop (Suc i) inputs"
    by (simp add: Cons_nth_drop_Suc)
  with True show ?thesis by (simp add: claim_def owed_def)
next
  case False
  then show ?thesis by (simp add: claim_def owed_def)
qed

lemma spawn_conserved:
  assumes "conserved worker inputs st"
  shows "conserved worker inputs (spawn (length inputs) st)"
proof -
  from assms claim_owed [of worker inputs "idx st"] show ?thesis
    unfolding conserved_def spawn_def by (simp add: ac_simps)
qed

lemma fire_conserved:
  assumes c: "conserved worker inputs st" and w: "w < length (tasks st)"
  shows "conserved worker inputs (fire worker inputs w st)"
proof (cases "tasks st ! w")
  case (Awaiting i)
  have r: "mset (pushResult (results st) (worker (inputs ! i))) =
      mset (results st) + owed worker inputs (Awaiting i)"
    by (subst pushResult_append) (simp add: owed_def outputsOf_def)
  from sum_owed_update [OF w, of worker inputs Sleeping] Awaiting
  have s: "sum_list (map (owed worker inputs) ((tasks st)[w := Sleeping])) + owed worker inputs (Awaiting i) =
      sum_list (map (owed worker inputs) (tasks st))"
    by (simp add: owed_def)
  from c show ?thesis
    unfolding conserved_def fire_def Awaiting
    by (simp add: r s [symmetric] ac_simps)
next
  case Sleeping
  from sum_owed_update [OF w, of worker inputs "claim (length inputs) (idx st)"] Sleeping
  have s: "sum_list (map (owed worker inputs) ((tasks st)[w := claim (length inputs) (idx st)])) =
      sum_list (map (owed worker inputs) (tasks st)) + owed worker inputs (claim (length inputs) (idx st))"
    by (simp add: owed_def)
  from c claim_owed [of worker inputs "idx st"] show ?thesis
    unfolding conserved_def fire_def Sleeping
    by (simp add: s ac_simps)
next
  case Returned
  with c show ?thesis by (simp add: fire_def)
qed

lemma pending_iff: "w \<in> set (pending st) \<longleftrightarrow> w < length (tasks st) \<and> tasks st ! w \<noteq> Returned"
  by (auto simp: pending_def)

lemma fire_live:
  assumes w: "w \<in> set (pending st)"
  shows "live inputs (fire worker inputs w st)"
proof -
  from w have wl: "w < length (tasks st)" and nr: "tasks st ! w \<noteq> Returned"
    by (simp_all add: pending_iff)
  show ?thesis
  proof (cases "tasks st ! w")
    case (Awaiting i)
    have "w \<in> set (pending (fire worker inputs w st))"
      using wl by (simp add: pending_iff fire_def Awaiting)
    then show ?thesis unfolding live_def by auto
  next
    case Sleeping
    show ?thesis
    proof (cases "length inputs \<le> idx st")
      case True
      then show ?thesis by (simp add: live_def fire_def Sleeping)
    next
      case False
      have "w \<in> set (pending (fire worker inputs w st))"
        using wl False by (simp add: pending_iff fire_def Sleeping claim_def)
      then show ?thesis unfolding live_def by auto
    qed
  next
    case Returned
    with nr show ?thesis by simp
  qed
qed

lemma ne_set_conv_Nil: "x \<in> set xs \<Longrightarrow> xs \<noteq> []"
  by auto

lemma sum_list_all_empty:
  "\<forall>x\<in>set xs. f x = ({#} :: 'a multiset) \<Longrightarrow> sum_list (map f xs) = {#}"
  by (induction xs) auto

lemma pending_Nil_owed:
  assumes "pending st = []"
  shows "sum_list (map (owed worker inputs) (tasks st)) = {#}"
proof -
  have "\<forall>ph\<in>set (tasks st). ph = Returned"
  proof
    fix ph assume "ph \<in> set (tasks st)"
    then obtain w where "w < length (tasks st)" "tasks st ! w = ph"
      by (auto simp: in_set_conv_nth)
    with assms pending_iff [of w st] show "ph = Returned" by auto
  qed
  then have "\<forall>ph\<in>set (tasks st). owed worker inputs ph = {#}"
    by (auto simp: owed_def)
  then show ?thesis by (rule sum_list_all_empty)
qed

lemma runPool_mset:
  "conserved worker inputs st \<Longrightarrow> live inputs st \<Longrightarrow>
   mset (runPool worker inputs sched st) = mset (concat (map (outputsOf worker) inputs))"
proof (induction worker inputs sched st rule: runPool.induct)
  case (1 worker inputs sched st)
  show ?case
  proof (cases "pending st = []")
    case True
    with "1.prems"(2) have "length inputs \<le> idx st" by (simp add: live_def)
    with "1.prems"(1) pending_Nil_owed [OF True, of worker inputs] True
    show ?thesis by (simp add: conserved_def)
  next
    case False
    let ?c = "case sched of [] \<Rightarrow> 0 | c # _ \<Rightarrow> c"
    let ?w = "pending st ! (?c mod length (pending st))"
    have mem: "?w \<in> set (pending st)" using False by simp
    then have wl: "?w < length (tasks st)" by (simp add: pending_iff)
    have "mset (runPool worker inputs (tl sched) (fire worker inputs ?w st)) =
        mset (concat (map (outputsOf worker) inputs))"
      using False fire_conserved [OF "1.prems"(1) wl] fire_live [OF mem]
      by (intro "1.IH") auto
    with False show ?thesis by (simp add: Let_def)
  qed
qed

lemma spawn_funpow:
  "(spawn n ^^ m) \<lparr>idx = 0, results = [], tasks = []\<rparr> =
   \<lparr>idx = m, results = [], tasks = map (claim n) [0..<m]\<rparr>"
  by (induction m) (simp_all add: spawn_def)

lemma spawn_funpow_conserved:
  "conserved worker inputs ((spawn (length inputs) ^^ m) \<lparr>idx = 0, results = [], tasks = []\<rparr>)"
proof (induction m)
  case 0
  show ?case by (simp add: conserved_def)
next
  case (Suc m)
  from spawn_conserved [OF Suc] show ?case by simp
qed

lemma start_live:
  assumes "0 < limit"
  shows "live inputs ((spawn (length inputs) ^^ nat (min limit (int (length inputs))))
          \<lparr>idx = 0, results = [], tasks = []\<rparr>)"
proof (cases "inputs = []")
  case True
  then show ?thesis by (simp add: live_def)
next
  case False
  let ?m = "nat (min limit (int (length inputs)))"
  from assms False have m: "0 < ?m" by simp
  have "0 \<in> set (pending \<lparr>idx = k, results = [], tasks = map (claim (length inputs)) [0..<k]\<rparr>)"
    if "0 < k" for k :: nat
    using that False by (simp add: pending_iff claim_def del: upt_Suc)
  from this [OF m]
  have "pending \<lparr>idx = ?m, results = [], tasks = map (claim (length inputs)) [0..<?m]\<rparr> \<noteq> []"
    by (rule ne_set_conv_Nil)
  then show ?thesis unfolding live_def spawn_funpow by (rule disjI2)
qed

lemma outputsOf_cases:
  "outputsOf worker =
     (\<lambda>x. case worker x of
        Inl e \<Rightarrow> []
      | Inr (RArray r) \<Rightarrow> r
      | Inr (RValue v) \<Rightarrow> [v]
      | Inr RUndefined \<Rightarrow> [])"
  by (rule ext) (simp add: outputsOf_def split: sum.splits ret.splits)

lemma runLimited_no_worker:
  "limit \<le> 0 \<or> inputs = [] \<Longrightarrow> runLimited inputs worker limit sched = []"
proof -
  assume "limit \<le> 0 \<or> inputs = []"
  then have m: "nat (min limit (int (length inputs))) = 0" by auto
  have p: "pending \<lparr>idx = 0, results = ([] :: 'b list), tasks = []\<rparr> = []"
    by (simp add: pending_def)
  show ?thesis
    unfolding runLimited_def m
    by (subst runPool.simps) (simp add: p)
qed

text \<open>
  Claim C9, amended. With a limit of at least one, for every list of inputs, every
  worker and every order of the events, \<open>runLimited\<close> returns (the run ends, by the
  termination of \<open>runPool\<close>), and what it returns holds exactly, each as often as it was
  produced: nothing for an input whose worker raises, the elements of the array for an
  input whose worker resolves to an array, the value for one that resolves to a single
  value, and nothing for one that resolves to \<open>undefined\<close>. With a limit of zero or
  less no worker starts and the result is empty. The empty list of inputs gives the
  empty result.
\<close>

theorem runLimited_partial_failure:
  "(0 < limit \<longrightarrow>
      mset (runLimited inputs worker limit sched) =
        mset (concat (map (\<lambda>x. case worker x of
                                Inl e \<Rightarrow> []
                              | Inr (RArray r) \<Rightarrow> r
                              | Inr (RValue v) \<Rightarrow> [v]
                              | Inr RUndefined \<Rightarrow> []) inputs))) \<and>
   (limit \<le> 0 \<longrightarrow> runLimited inputs worker limit sched = []) \<and>
   runLimited [] worker limit sched = []"
proof (intro conjI impI)
  assume l: "0 < limit"
  have "mset (runLimited inputs worker limit sched) =
      mset (concat (map (outputsOf worker) inputs))"
    unfolding runLimited_def
    by (rule runPool_mset [OF spawn_funpow_conserved start_live [OF l]])
  then show "mset (runLimited inputs worker limit sched) =
        mset (concat (map (\<lambda>x. case worker x of
                                Inl e \<Rightarrow> []
                              | Inr (RArray r) \<Rightarrow> r
                              | Inr (RValue v) \<Rightarrow> [v]
                              | Inr RUndefined \<Rightarrow> []) inputs))"
    by (simp only: outputsOf_cases)
next
  assume "limit \<le> 0"
  then show "runLimited inputs worker limit sched = []"
    by (simp add: runLimited_no_worker)
next
  show "runLimited [] worker limit sched = []"
    by (simp add: runLimited_no_worker)
qed

theorem runLimited_partial_failure_witness:
  "mset (runLimited [1, 2, 3, 4, 5] sampleWorker 2 [1, 0, 1, 1, 0]) =
     {#10, 11, 20, 21, 40#} \<and>
   runLimited [1, 2, 3, 4, 5] sampleWorker 2 [1, 0, 1, 1, 0] = [20, 21, 10, 11, 40]"
proof -
  have l: "(0::int) < 2" by simp
  have a: "mset (runLimited [1, 2, 3, 4, 5] sampleWorker 2 [1, 0, 1, 1, 0]) =
      {#10, 11, 20, 21, 40#}"
    using runLimited_partial_failure [where limit = 2 and inputs = "[1, 2, 3, 4, 5]"
        and worker = sampleWorker and sched = "[1, 0, 1, 1, 0]", THEN conjunct1, THEN mp, OF l]
    by (simp add: sampleWorker_def)
  have b: "runLimited [1, 2, 3, 4, 5] sampleWorker 2 [1, 0, 1, 1, 0] = [20, 21, 10, 11, 40]"
    by code_simp
  from a b show ?thesis by (rule conjI)
qed

text \<open>
  Claim C9 as stated fails for a limit of zero: no promise is started, and the outputs
  of the inputs whose workers do not raise are missing from the result.
\<close>

theorem runLimited_zero_limit_counterexample:
  "sampleWorker 1 = Inr (RArray [10, 11]) \<and> runLimited [1, 2] sampleWorker 0 [] = []"
  by (simp add: sampleWorker_def runLimited_no_worker)

end
